theory Spec2Isabelle
  imports Complex_Main "HOL-Library.Word" "HOL-Library.Sublist"
begin

section \<open>Long transcription test client: the model\<close>

text \<open>
  A shallow embedding of \<^verbatim>\<open>test-long-transcription.py\<close>: the audio feeder
  (\<^verbatim>\<open>sender\<close>), the result collector (\<^verbatim>\<open>receiver\<close>), the session
  (\<^verbatim>\<open>run_transcription\<close>) and the report writer (\<^verbatim>\<open>main\<close>).

  What the environment decides is an explicit input of the model: whether the connection
  can be established, how many \<^verbatim>\<open>ws.send\<close> calls succeed before the peer
  closes, the outcomes of the successive \<^verbatim>\<open>ws.recv\<close> calls the collector makes
  before it leaves its loop, the wall-clock measurements, and whether the report file can be
  created. The two tasks share one cooperative event loop; the feeder is the only task that
  sends and the collector the only task that appends to the results list, so each of them is
  modelled as a sequential function and the outbound messages are the feeder's own trace.

  Python floats are values of type \<open>real\<close>; rounding is not modelled and the rendering
  of a float with a fixed number of decimals is a parameter. The numbers inside inbound JSON
  are of an arbitrary type \<open>'f\<close> with the conversions of \<^verbatim>\<open>float()\<close> as
  parameters. Strings are HOL strings, one \<open>char\<close> per code point below 256.
\<close>

subsection \<open>Exceptions\<close>

datatype error =
    ConnectionClosed
  | ConnectFailed
  | ZeroDivisionError
  | JSONDecodeError
  | TypeError
  | AttributeError
  | KeyError
  | ValueError
  | OverflowError
  | OSError

subsection \<open>Strings\<close>

definition nl :: string where
  "nl = [CHR 0x0A]"

definition is_space :: "char \<Rightarrow> bool" where
  \<comment> \<open>the code points below 256 that \<^verbatim>\<open>str.isspace\<close> accepts\<close>
  "is_space c = ((of_char c :: nat) \<in> {9, 10, 11, 12, 13, 28, 29, 30, 31, 32, 133, 160})"

definition strip :: "string \<Rightarrow> string" where
  \<comment> \<open>\<^verbatim>\<open>s.strip()\<close>\<close>
  "strip s = rev (dropWhile is_space (rev (dropWhile is_space s)))"

definition lower_char :: "char \<Rightarrow> char" where
  "lower_char c =
     (case map_of (zip ''ABCDEFGHIJKLMNOPQRSTUVWXYZ'' ''abcdefghijklmnopqrstuvwxyz'') c of
        None \<Rightarrow> c
      | Some l \<Rightarrow> l)"

definition lower :: "string \<Rightarrow> string" where
  \<comment> \<open>\<^verbatim>\<open>s.lower()\<close> on the letters A to Z; any other character is kept. No character
      outside A to Z has a lower-case form containing \<open>e\<close>, \<open>r\<close> or \<open>o\<close>, so the
      test \<^verbatim>\<open>"error" in s.lower()\<close> has the same answer.\<close>
  "lower s = map lower_char s"

fun str_contains :: "string \<Rightarrow> string \<Rightarrow> bool" where
  \<comment> \<open>\<^verbatim>\<open>needle in hay\<close> on two strings\<close>
  "str_contains needle [] = (needle = [])"
| "str_contains needle (c # cs) =
     (take (length needle) (c # cs) = needle \<or> str_contains needle cs)"

fun str_nat :: "nat \<Rightarrow> string" where
  "str_nat n =
     (if n < 10 then [''0123456789'' ! n]
      else str_nat (n div 10) @ [''0123456789'' ! (n mod 10)])"

declare str_nat.simps [simp del]

definition str_int :: "int \<Rightarrow> string" where
  \<comment> \<open>\<^verbatim>\<open>str(i)\<close>, as an f-string renders an integer\<close>
  "str_int i = (if i < 0 then CHR ''-'' # str_nat (nat (- i)) else str_nat (nat i))"

fun join :: "string \<Rightarrow> string list \<Rightarrow> string" where
  \<comment> \<open>\<^verbatim>\<open>sep.join(xs)\<close>\<close>
  "join sep [] = []"
| "join sep [x] = x"
| "join sep (x # y # ys) = x @ sep @ join sep (y # ys)"

subsection \<open>Inbound JSON values\<close>

datatype 'f json =
    JNull
  | JBool bool
  | JInt int
  | JFloat 'f
  | JStr string
  | JArr "'f json list"
  | JObj "(string \<times> 'f json) list"

text \<open>
  A message as it arrives, with what \<^verbatim>\<open>json.loads\<close> makes of it: text that is
  not JSON raises, any other text decodes to a value. An object is the association list of
  its keys (distinct, in document order).
\<close>

datatype 'f wire = Garbled | Encoded "'f json"

definition json_loads :: "'f wire \<Rightarrow> error + 'f json" where
  "json_loads w = (case w of Garbled \<Rightarrow> Inl JSONDecodeError | Encoded v \<Rightarrow> Inr v)"

definition py_in :: "string \<Rightarrow> 'f json \<Rightarrow> error + bool" where
  \<comment> \<open>\<^verbatim>\<open>key in data\<close>: a key of a dict, an element of a list, a substring of a
      string; the other values are not containers\<close>
  "py_in key data =
     (case data of
        JObj kv \<Rightarrow> Inr (key \<in> set (map fst kv))
      | JArr xs \<Rightarrow> Inr (JStr key \<in> set xs)
      | JStr s \<Rightarrow> Inr (str_contains key s)
      | _ \<Rightarrow> Inl TypeError)"

definition py_getitem :: "'f json \<Rightarrow> string \<Rightarrow> error + 'f json" where
  \<comment> \<open>\<^verbatim>\<open>data[key]\<close> with a string key\<close>
  "py_getitem data key =
     (case data of
        JObj kv \<Rightarrow> (case map_of kv key of None \<Rightarrow> Inl KeyError | Some v \<Rightarrow> Inr v)
      | _ \<Rightarrow> Inl TypeError)"

definition py_iter :: "'f json \<Rightarrow> error + 'f json list" where
  \<comment> \<open>the items a \<^verbatim>\<open>for\<close> loop visits: the elements of a list, the keys of a
      dict, the characters of a string\<close>
  "py_iter v =
     (case v of
        JArr xs \<Rightarrow> Inr xs
      | JObj kv \<Rightarrow> Inr (map (\<lambda>p. JStr (fst p)) kv)
      | JStr s \<Rightarrow> Inr (map (\<lambda>c. JStr [c]) s)
      | _ \<Rightarrow> Inl TypeError)"

definition py_get :: "'f json \<Rightarrow> string \<Rightarrow> 'f json \<Rightarrow> error + 'f json" where
  \<comment> \<open>\<^verbatim>\<open>seg.get(key, default)\<close>: only a dict has the method\<close>
  "py_get seg key dflt =
     (case seg of
        JObj kv \<Rightarrow> (case map_of kv key of None \<Rightarrow> Inr dflt | Some v \<Rightarrow> Inr v)
      | _ \<Rightarrow> Inl AttributeError)"

definition py_strip :: "'f json \<Rightarrow> error + string" where
  \<comment> \<open>\<^verbatim>\<open>v.strip()\<close>: only a string has the method\<close>
  "py_strip v = (case v of JStr s \<Rightarrow> Inr (strip s) | _ \<Rightarrow> Inl AttributeError)"

definition py_lower :: "'f json \<Rightarrow> error + string" where
  "py_lower v = (case v of JStr s \<Rightarrow> Inr (lower s) | _ \<Rightarrow> Inl AttributeError)"

definition seg_text :: "'f json \<Rightarrow> error + string" where
  \<comment> \<open>\<^verbatim>\<open>seg.get("text", "").strip()\<close>\<close>
  "seg_text seg =
     (case py_get seg ''text'' (JStr []) of
        Inl e \<Rightarrow> Inl e
      | Inr v \<Rightarrow> py_strip v)"

subsection \<open>Floats\<close>

text \<open>
  The float operations the program applies to inbound numbers: \<open>float_of_int\<close> and
  \<open>float_of_str\<close> are \<^verbatim>\<open>float()\<close> on an integer and on a string (\<open>None\<close>
  where it raises), \<open>fmt1\<close> is \<^verbatim>\<open>f"{x:.1f}"\<close>; \<open>fmt_real d x\<close> renders a
  measured time with \<open>d\<close> decimals.
\<close>

record 'f float_ops =
  float_of_int :: "int \<Rightarrow> 'f option"
  float_of_str :: "string \<Rightarrow> 'f option"
  fmt1 :: "'f \<Rightarrow> string"
  fmt_real :: "nat \<Rightarrow> real \<Rightarrow> string"

definition py_float :: "'f float_ops \<Rightarrow> 'f json \<Rightarrow> error + 'f" where
  \<comment> \<open>\<^verbatim>\<open>float(v)\<close>\<close>
  "py_float ops v =
     (case v of
        JFloat x \<Rightarrow> Inr x
      | JInt i \<Rightarrow> (case float_of_int ops i of None \<Rightarrow> Inl OverflowError | Some x \<Rightarrow> Inr x)
      | JBool b \<Rightarrow>
          (case float_of_int ops (if b then 1 else 0) of
             None \<Rightarrow> Inl OverflowError
           | Some x \<Rightarrow> Inr x)
      | JStr s \<Rightarrow> (case float_of_str ops s of None \<Rightarrow> Inl ValueError | Some x \<Rightarrow> Inr x)
      | _ \<Rightarrow> Inl TypeError)"

subsection \<open>The connection and what the feeder does\<close>

record config =
  uid :: string
  language :: string
  task :: string
  model :: string
  use_vad :: bool

datatype 'a payload = Config config | Frame "'a list"

datatype log_line =
    SentProgress nat
  | ConnectionClosedAfter nat
  | FinishedSending nat
  | SegmentPreview nat string
  | ServerError string
  | ReceiverError error
  | ConnectionError error

text \<open>
  The trace of a task: the payloads \<^verbatim>\<open>ws.send\<close> delivered, the console lines
  (without the elapsed time they start with), the sleeps in seconds and the setting of
  the \<^verbatim>\<open>receive_done\<close> event.
\<close>

datatype 'a action =
    WsSend "'a payload"
  | Print log_line
  | Sleep real
  | SetReceiveDone

text \<open>
  A connection is the number of sends that still succeed before the peer closes it
  (\<open>None\<close>: it stays open); a send on a closed connection raises.
\<close>

definition ws_send :: "nat option \<Rightarrow> error + nat option" where
  "ws_send c =
     (case c of
        None \<Rightarrow> Inr None
      | Some 0 \<Rightarrow> Inl ConnectionClosed
      | Some (Suc n) \<Rightarrow> Inr (Some n))"

definition CHUNK_DURATION_MS :: nat where
  "CHUNK_DURATION_MS = 100"

definition SAMPLE_RATE :: nat where
  "SAMPLE_RATE = 16000"

definition chunk_samples :: nat where
  \<comment> \<open>\<^verbatim>\<open>int(SAMPLE_RATE * CHUNK_DURATION_MS / 1000)\<close>\<close>
  "chunk_samples = SAMPLE_RATE * CHUNK_DURATION_MS div 1000"

function py_range :: "nat \<Rightarrow> nat \<Rightarrow> nat \<Rightarrow> nat list" where
  \<comment> \<open>\<^verbatim>\<open>range(i, stop, step)\<close> for a positive step (the step is
      \<open>chunk_samples\<close>)\<close>
  "py_range i stop step =
     (if step = 0 \<or> stop \<le> i then [] else i # py_range (i + step) stop step)"
  by pat_completeness auto
termination
  by (relation "measure (\<lambda>(i, stop, step). stop - i)") auto

declare py_range.simps [simp del]

record 'a feeder =
  chunks_sent :: nat
  conn :: "nat option"
  trace :: "'a action list"

datatype 'a flow = Continue 'a | Break 'a | Raise error 'a

definition send_chunk :: "'a list \<Rightarrow> nat \<Rightarrow> nat \<Rightarrow> 'a feeder \<Rightarrow> 'a feeder flow" where
  \<comment> \<open>one pass through the body of the loop of \<^verbatim>\<open>sender\<close>, at offset \<open>i\<close>\<close>
  "send_chunk audio total_chunks i st =
     (let chunk = take chunk_samples (drop i audio) in
      case ws_send (conn st) of
        Inl e \<Rightarrow>
          Break (st\<lparr>trace := trace st @ [Print (ConnectionClosedAfter (chunks_sent st))]\<rparr>)
      | Inr c \<Rightarrow>
          let st1 = st\<lparr>conn := c, chunks_sent := chunks_sent st + 1,
                       trace := trace st @ [WsSend (Frame chunk)]\<rparr>
          in if total_chunks = 0 then Raise ZeroDivisionError st1
             else
               let progress = chunks_sent st1 * 100 div total_chunks;
                   st2 = (if chunks_sent st1 mod (total_chunks div 10 + 1) = 0
                          then st1\<lparr>trace := trace st1 @ [Print (SentProgress progress)]\<rparr>
                          else st1)
               in Continue
                    (st2\<lparr>trace := trace st2 @ [Sleep (real CHUNK_DURATION_MS / 1000 / 2)]\<rparr>))"

fun sender_loop :: "'a list \<Rightarrow> nat \<Rightarrow> nat list \<Rightarrow> 'a feeder \<Rightarrow> 'a feeder flow" where
  "sender_loop audio total_chunks [] st = Continue st"
| "sender_loop audio total_chunks (i # offsets) st =
     (case send_chunk audio total_chunks i st of
        Continue st' \<Rightarrow> sender_loop audio total_chunks offsets st'
      | Break st' \<Rightarrow> Break st'
      | Raise e st' \<Rightarrow> Raise e st')"

definition finish_sending :: "'a feeder \<Rightarrow> 'a feeder" where
  \<comment> \<open>the lines of \<^verbatim>\<open>sender\<close> after its loop\<close>
  "finish_sending st =
     st\<lparr>trace := trace st @
           [Print (FinishedSending (chunks_sent st)), Sleep 10, SetReceiveDone]\<rparr>"

definition sender :: "'a list \<Rightarrow> nat \<Rightarrow> 'a feeder \<Rightarrow> error option \<times> 'a feeder" where
  \<comment> \<open>the task \<^verbatim>\<open>sender\<close>: the exception that leaves it, if any, and its state\<close>
  "sender audio total_chunks st =
     (case sender_loop audio total_chunks (py_range 0 (length audio) chunk_samples) st of
        Continue st' \<Rightarrow> (None, finish_sending st')
      | Break st' \<Rightarrow> (None, finish_sending st')
      | Raise e st' \<Rightarrow> (Some e, st'))"

definition frames_of :: "'a action list \<Rightarrow> 'a list list" where
  \<comment> \<open>the audio frames of a trace, in the order they were sent\<close>
  "frames_of tr = concat (map (\<lambda>a. case a of WsSend (Frame f) \<Rightarrow> [f] | _ \<Rightarrow> []) tr)"

definition payloads_of :: "'a action list \<Rightarrow> 'a payload list" where
  "payloads_of tr = concat (map (\<lambda>a. case a of WsSend p \<Rightarrow> [p] | _ \<Rightarrow> []) tr)"

definition prints_of :: "'a action list \<Rightarrow> log_line list" where
  "prints_of tr = concat (map (\<lambda>a. case a of Print l \<Rightarrow> [l] | _ \<Rightarrow> []) tr)"

subsection \<open>The collector\<close>

record 'f collector =
  results :: "'f json list"
  last_text :: string
  segment_count :: nat
  console :: "log_line list"

fun collect_segments ::
  "'f collector \<Rightarrow> 'f json list \<Rightarrow> error option \<times> 'f collector" where
  \<comment> \<open>\<^verbatim>\<open>for seg in data["segments"]\<close>: the exception that leaves the loop, if any\<close>
  "collect_segments st [] = (None, st)"
| "collect_segments st (seg # segs) =
     (let st1 = st\<lparr>results := results st @ [seg]\<rparr> in
      case seg_text seg of
        Inl e \<Rightarrow> (Some e, st1)
      | Inr text \<Rightarrow>
          if text \<noteq> [] \<and> text \<noteq> last_text st1 then
            let n = segment_count st1 + 1;
                st2 = st1\<lparr>segment_count := n,
                          console := console st1 @
                            (if n mod 5 = 1 then [SegmentPreview n (take 60 text)] else []),
                          last_text := text\<rparr>
            in collect_segments st2 segs
          else collect_segments st1 segs)"

definition handle_message ::
  "'f collector \<Rightarrow> 'f json \<Rightarrow> error option \<times> 'f collector" where
  \<comment> \<open>what \<^verbatim>\<open>receiver\<close> does with one decoded message\<close>
  "handle_message st data =
     (case py_in ''segments'' data of
        Inl e \<Rightarrow> (Some e, st)
      | Inr True \<Rightarrow>
          (case py_getitem data ''segments'' of
             Inl e \<Rightarrow> (Some e, st)
           | Inr v \<Rightarrow>
               (case py_iter v of
                  Inl e \<Rightarrow> (Some e, st)
                | Inr segs \<Rightarrow> collect_segments st segs))
      | Inr False \<Rightarrow>
          (case py_in ''message'' data of
             Inl e \<Rightarrow> (Some e, st)
           | Inr True \<Rightarrow>
               (case py_getitem data ''message'' of
                  Inl e \<Rightarrow> (Some e, st)
                | Inr m \<Rightarrow>
                    (case py_lower m of
                       Inl e \<Rightarrow> (Some e, st)
                     | Inr low \<Rightarrow>
                         if str_contains ''error'' low
                         then (None, st\<lparr>console := console st @
                                 [ServerError (case m of JStr s \<Rightarrow> s | _ \<Rightarrow> [])]\<rparr>)
                         else (None, st)))
           | Inr False \<Rightarrow> (None, st)))"

text \<open>
  The outcomes of the successive \<^verbatim>\<open>ws.recv\<close> calls, each bounded by two
  seconds. The list holds the calls made while \<^verbatim>\<open>receive_done\<close> is not set:
  when it is used up, the loop condition has seen the event.
\<close>

datatype 'f recv = RecvTimeout | RecvClosed | RecvMsg "'f wire"

datatype exit_reason = StopObserved | PeerClosed | Crashed error

fun receiver_loop :: "'f collector \<Rightarrow> 'f recv list \<Rightarrow> exit_reason \<times> 'f collector" where
  "receiver_loop st [] = (StopObserved, st)"
| "receiver_loop st (RecvTimeout # evs) = receiver_loop st evs"
| "receiver_loop st (RecvClosed # evs) = (PeerClosed, st)"
| "receiver_loop st (RecvMsg w # evs) =
     (case json_loads w of
        Inl e \<Rightarrow> (Crashed e, st\<lparr>console := console st @ [ReceiverError e]\<rparr>)
      | Inr data \<Rightarrow>
          (case handle_message st data of
             (Some e, st') \<Rightarrow> (Crashed e, st'\<lparr>console := console st' @ [ReceiverError e]\<rparr>)
           | (None, st') \<Rightarrow> receiver_loop st' evs))"

definition receiver :: "'f recv list \<Rightarrow> exit_reason \<times> 'f collector" where
  "receiver evs =
     receiver_loop \<lparr>results = [], last_text = [], segment_count = 0, console = []\<rparr> evs"

subsection \<open>The session\<close>

text \<open>
  The input file, single-channel 16-bit PCM: the rate and the frame count of its header
  and the samples of its data chunk. \<^verbatim>\<open>readframes(n_frames)\<close> returns at most
  \<open>n_frames\<close> of them.
\<close>

record wav =
  framerate :: nat
  nframes :: nat
  pcm :: "16 word list"

record 'f world =
  connect_ok :: bool
  send_budget :: "nat option"
  inbound :: "'f recv list"
  elapsed :: real
  fs_writable :: bool
  timestamp :: string

record 'f session =
  collected :: "'f json list"
  total_time :: real
  duration :: real
  outbound :: "real action list"
  caught :: "error option"
  receiver_console :: "log_line list"

definition handshake :: "int \<Rightarrow> config" where
  "handshake run_number =
     \<lparr>uid = ''long-test-'' @ str_int run_number, language = ''en'',
      task = ''transcribe'', model = ''small.en'', use_vad = True\<rparr>"

definition run_transcription :: "'f world \<Rightarrow> wav \<Rightarrow> int \<Rightarrow> error + 'f session" where
  \<comment> \<open>\<open>Inl\<close>: an exception raised while loading the file, outside the
      \<^verbatim>\<open>try\<close>; \<open>caught\<close>: the exception the \<^verbatim>\<open>try\<close> caught and printed\<close>
  "run_transcription w wv run_number =
     (let sample_rate = framerate wv; n_frames = nframes wv in
      if sample_rate = 0 then Inl ZeroDivisionError
      else
        let dur = real n_frames / real sample_rate;
            audio_int16 = take n_frames (pcm wv);
            audio_float32 = map (\<lambda>s. real_of_int (sint s) / 32768) audio_int16;
            failed = (\<lambda>e. \<lparr>collected = [], total_time = elapsed w, duration = dur,
                            outbound = [], caught = Some e, receiver_console = []\<rparr>)
        in if \<not> connect_ok w then Inr (failed ConnectFailed)
           else
             case ws_send (send_budget w) of
               Inl e \<Rightarrow> Inr (failed e)
             | Inr c \<Rightarrow>
                 let total_chunks = length audio_float32 div chunk_samples;
                     fed = sender audio_float32 total_chunks
                             \<lparr>chunks_sent = 0, conn = c,
                              trace = [WsSend (Config (handshake run_number))]\<rparr>;
                     got = receiver (inbound w)
                 in Inr \<lparr>collected = results (snd got), total_time = elapsed w,
                         duration = dur, outbound = trace (snd fed), caught = fst fed,
                         receiver_console = console (snd got)\<rparr>)"

subsection \<open>The transcript and the report\<close>

definition transcript_line :: "'f float_ops \<Rightarrow> 'f \<Rightarrow> 'f \<Rightarrow> string \<Rightarrow> string" where
  \<comment> \<open>\<^verbatim>\<open>f"[{start:.1f}s - {end:.1f}s] {text}"\<close>\<close>
  "transcript_line ops start end text =
     ''['' @ fmt1 ops start @ ''s - '' @ fmt1 ops end @ ''s] '' @ text"

definition seg_time :: "'f float_ops \<Rightarrow> 'f json \<Rightarrow> string \<Rightarrow> error + 'f" where
  \<comment> \<open>\<^verbatim>\<open>float(seg.get(key, 0))\<close>\<close>
  "seg_time ops seg key =
     (case py_get seg key (JInt 0) of
        Inl e \<Rightarrow> Inl e
      | Inr v \<Rightarrow> py_float ops v)"

fun dedup_loop ::
  "'f float_ops \<Rightarrow> string set \<Rightarrow> string list \<Rightarrow> 'f json list \<Rightarrow> error + string list" where
  \<comment> \<open>the loop of \<^verbatim>\<open>main\<close> over \<^verbatim>\<open>results\<close>, from the state
      (\<^verbatim>\<open>seen_texts\<close>, \<^verbatim>\<open>transcript_lines\<close>)\<close>
  "dedup_loop ops seen_texts transcript_lines [] = Inr transcript_lines"
| "dedup_loop ops seen_texts transcript_lines (seg # segs) =
     (case seg_text seg of
        Inl e \<Rightarrow> Inl e
      | Inr text \<Rightarrow>
          if text \<noteq> [] \<and> text \<notin> seen_texts then
            (case seg_time ops seg ''start'' of
               Inl e \<Rightarrow> Inl e
             | Inr start \<Rightarrow>
                 (case seg_time ops seg ''end'' of
                    Inl e \<Rightarrow> Inl e
                  | Inr end \<Rightarrow>
                      dedup_loop ops (insert text seen_texts)
                        (transcript_lines @ [transcript_line ops start end text]) segs))
          else dedup_loop ops seen_texts transcript_lines segs)"

definition compile_transcript :: "'f float_ops \<Rightarrow> 'f json list \<Rightarrow> error + string list" where
  "compile_transcript ops rs = dedup_loop ops {} [] rs"

definition rule70 :: string where
  \<comment> \<open>\<^verbatim>\<open>'=' * 70\<close>\<close>
  "rule70 = replicate 70 (CHR ''='')"

definition results_path :: "int \<Rightarrow> string \<Rightarrow> string" where
  "results_path run_number stamp =
     ''/home/ubuntu/event-b/whisperlive-runpod/artifacts/transcription-run'' @
     str_int run_number @ ''-'' @ stamp @ ''.txt''"

definition report_head :: "'f float_ops \<Rightarrow> int \<Rightarrow> string \<Rightarrow> real \<Rightarrow> real \<Rightarrow> string list" where
  \<comment> \<open>the first five \<^verbatim>\<open>f.write\<close> calls\<close>
  "report_head ops run_number audio_file audio_duration ttime =
     [''Transcription Results - Run #'' @ str_int run_number @ nl,
      rule70 @ nl,
      ''Audio file: '' @ audio_file @ nl,
      ''Audio duration: '' @ fmt_real ops 1 audio_duration @ ''s ('' @
        fmt_real ops 1 (audio_duration / 60) @ '' min)'' @ nl,
      ''Processing time: '' @ fmt_real ops 1 ttime @ ''s ('' @
        fmt_real ops 1 (ttime / 60) @ '' min)'' @ nl]"

definition report_rest :: "'f float_ops \<Rightarrow> real \<Rightarrow> real \<Rightarrow> string list \<Rightarrow> string list" where
  \<comment> \<open>the last four \<^verbatim>\<open>f.write\<close> calls; the divisor is not zero here\<close>
  "report_rest ops audio_duration ttime transcript_lines =
     [''Real-time factor: '' @ fmt_real ops 2 (ttime / audio_duration) @ ''x'' @ nl,
      ''Unique segments: '' @ str_nat (length transcript_lines) @ nl,
      rule70 @ nl @ nl,
      join nl transcript_lines]"

record run =
  raised :: "error option"
  report_file :: "(string \<times> string list) option"

definition main :: "'f float_ops \<Rightarrow> 'f world \<Rightarrow> wav \<Rightarrow> string \<Rightarrow> int \<Rightarrow> run" where
  \<comment> \<open>\<open>raised\<close>: the exception that escapes \<^verbatim>\<open>main\<close>; \<open>report_file\<close>: the path
      of the report and the strings written to it, when it was created\<close>
  "main ops w wv audio_file run_number =
     (case run_transcription w wv run_number of
        Inl e \<Rightarrow> \<lparr>raised = Some e, report_file = None\<rparr>
      | Inr s \<Rightarrow>
          (case compile_transcript ops (collected s) of
             Inl e \<Rightarrow> \<lparr>raised = Some e, report_file = None\<rparr>
           | Inr transcript_lines \<Rightarrow>
               let results_file = results_path run_number (timestamp w) in
               if \<not> fs_writable w then \<lparr>raised = Some OSError, report_file = None\<rparr>
               else
                 let written =
                       report_head ops run_number audio_file (duration s) (total_time s)
                 in if duration s = 0
                    then \<lparr>raised = Some ZeroDivisionError,
                          report_file = Some (results_file, written)\<rparr>
                    else \<lparr>raised = None,
                          report_file = Some (results_file, written @
                            report_rest ops (duration s) (total_time s) transcript_lines)\<rparr>))"

subsection \<open>Notions the properties are stated with\<close>

definition flow_state :: "'a flow \<Rightarrow> 'a" where
  "flow_state f = (case f of Continue s \<Rightarrow> s | Break s \<Rightarrow> s | Raise e s \<Rightarrow> s)"

definition stays_open :: "nat option \<Rightarrow> nat \<Rightarrow> bool" where
  \<comment> \<open>the connection accepts at least \<open>n\<close> more sends\<close>
  "stays_open c n = (case c of None \<Rightarrow> True | Some b \<Rightarrow> n \<le> b)"

definition frame_at :: "'a list \<Rightarrow> nat \<Rightarrow> 'a list" where
  \<comment> \<open>\<^verbatim>\<open>audio_float32[i:i+chunk_samples]\<close>\<close>
  "frame_at audio i = take chunk_samples (drop i audio)"

definition is_ok :: "'e + 'a \<Rightarrow> bool" where
  "is_ok r = (case r of Inl e \<Rightarrow> False | Inr v \<Rightarrow> True)"

definition segment_shaped :: "'f float_ops \<Rightarrow> 'f json \<Rightarrow> bool" where
  \<comment> \<open>a TranscriptSegment as the program can read it: a record whose text, where present,
      is a string and whose start and end, where present, convert to floats\<close>
  "segment_shaped ops seg =
     (is_ok (seg_text seg) \<and> is_ok (seg_time ops seg ''start'') \<and>
      is_ok (seg_time ops seg ''end''))"

definition norm_text :: "'f json \<Rightarrow> string" where
  \<comment> \<open>the normalized text of a segment: its text without surrounding whitespace\<close>
  "norm_text seg = (case seg_text seg of Inl e \<Rightarrow> [] | Inr t \<Rightarrow> t)"

definition segment_line :: "'f float_ops \<Rightarrow> 'f json \<Rightarrow> string" where
  \<comment> \<open>the transcript line of a segment\<close>
  "segment_line ops seg =
     (case seg_time ops seg ''start'' of
        Inl e \<Rightarrow> []
      | Inr start \<Rightarrow>
          (case seg_time ops seg ''end'' of
             Inl e \<Rightarrow> []
           | Inr end \<Rightarrow> transcript_line ops start end (norm_text seg)))"

fun first_seen :: "'f json list \<Rightarrow> 'f json list \<Rightarrow> 'f json list" where
  \<comment> \<open>the deduplication in the words of the specification: of the records that follow
      \<open>earlier\<close>, those whose normalized text no earlier record has, in their order\<close>
  "first_seen earlier [] = []"
| "first_seen earlier (seg # segs) =
     (if norm_text seg \<in> norm_text ` set earlier
      then first_seen (earlier @ [seg]) segs
      else seg # first_seen (earlier @ [seg]) segs)"




subsection \<open>Float operations for the examples\<close>

definition plain_ops :: "real float_ops" where
  \<comment> \<open>an instance used to run the model on concrete inputs; it renders a number by its
      integer part\<close>
  "plain_ops =
     \<lparr>float_of_int = (\<lambda>i. Some (real_of_int i)),
      float_of_str = (\<lambda>s. None),
      fmt1 = (\<lambda>x. str_int \<lfloor>x\<rfloor>),
      fmt_real = (\<lambda>d x. str_int \<lfloor>x\<rfloor>)\<rparr>"

section \<open>Properties\<close>

subsection \<open>Traces\<close>

lemma frames_of_append: "frames_of (xs @ ys) = frames_of xs @ frames_of ys"
  by (simp add: frames_of_def)

lemma frames_of_simps:
  "frames_of [] = []"
  "frames_of (WsSend (Frame f) # tr) = f # frames_of tr"
  "frames_of (WsSend (Config c) # tr) = frames_of tr"
  "frames_of (Print l # tr) = frames_of tr"
  "frames_of (Sleep d # tr) = frames_of tr"
  "frames_of (SetReceiveDone # tr) = frames_of tr"
  by (simp_all add: frames_of_def)

lemma payloads_of_append: "payloads_of (xs @ ys) = payloads_of xs @ payloads_of ys"
  by (simp add: payloads_of_def)

lemma payloads_of_simps:
  "payloads_of [] = []"
  "payloads_of (WsSend p # tr) = p # payloads_of tr"
  "payloads_of (Print l # tr) = payloads_of tr"
  "payloads_of (Sleep d # tr) = payloads_of tr"
  "payloads_of (SetReceiveDone # tr) = payloads_of tr"
  by (simp_all add: payloads_of_def)

lemma chunk_samples_eq: "chunk_samples = 1600"
  by (simp add: chunk_samples_def SAMPLE_RATE_def CHUNK_DURATION_MS_def)

lemma length_py_range:
  "0 < step \<Longrightarrow> length (py_range i stop step) = (stop - i + step - 1) div step"
proof (induction i stop step rule: py_range.induct)
  case (1 i stop step)
  show ?case
  proof (cases "stop \<le> i")
    case True
    then have "py_range i stop step = []" by (simp add: py_range.simps [of i stop step])
    moreover have "stop - i + step - 1 < step" using True 1(2) by simp
    ultimately show ?thesis by simp
  next
    case False
    then have eq: "py_range i stop step = i # py_range (i + step) stop step"
      using 1(2) by (simp add: py_range.simps [of i stop step])
    have ih: "length (py_range (i + step) stop step) = (stop - (i + step) + step - 1) div step"
      using 1(1) 1(2) False by simp
    obtain m where m: "stop = i + Suc m"
      using False less_imp_Suc_add [of i stop] by auto
    have m1: "stop - i + step - 1 = m + step" using m by simp
    have "(m + step) div step = Suc (m div step)" using 1(2) by simp
    then have a: "(stop - i + step - 1) div step = Suc (m div step)"
      using m1 by (simp only:)
    have b: "(stop - (i + step) + step - 1) div step = m div step"
    proof (cases "step \<le> Suc m")
      case True
      then have "stop - (i + step) + step - 1 = m" using m by simp
      then show ?thesis by (simp only:)
    next
      case False
      then have "stop - (i + step) + step - 1 = step - 1" and "m < step"
        using m by simp_all
      then show ?thesis using 1(2) by simp
    qed
    have "length (py_range i stop step) = Suc (length (py_range (i + step) stop step))"
      using eq by simp
    also have "\<dots> = Suc (m div step)" using ih b by (simp only:)
    finally show ?thesis using a by (simp only:)
  qed
qed

lemma nth_py_range:
  "0 < step \<Longrightarrow> k < length (py_range i stop step) \<Longrightarrow> py_range i stop step ! k = i + k * step"
proof (induction i stop step arbitrary: k rule: py_range.induct)
  case (1 i stop step)
  show ?case
  proof (cases "stop \<le> i")
    case True
    with 1(3) show ?thesis by (simp add: py_range.simps)
  next
    case False
    then have eq: "py_range i stop step = i # py_range (i + step) stop step"
      using 1(2) by (simp add: py_range.simps [of i stop step])
    show ?thesis
    proof (cases k)
      case 0
      then show ?thesis using eq by simp
    next
      case (Suc k')
      then have "k' < length (py_range (i + step) stop step)" using 1(3) eq by simp
      then have "py_range (i + step) stop step ! k' = i + step + k' * step"
        using 1(1) [of k'] 1(2) False by simp
      then show ?thesis using eq Suc by simp
    qed
  qed
qed

lemma concat_frames_py_range:
  "0 < step \<Longrightarrow>
   concat (map (\<lambda>j. take step (drop j xs)) (py_range i (length xs) step)) = drop i xs"
proof (induction i "length xs" step rule: py_range.induct)
  case (1 i step)
  show ?case
  proof (cases "length xs \<le> i")
    case True
    then show ?thesis by (simp add: py_range.simps)
  next
    case False
    then have eq: "py_range i (length xs) step = i # py_range (i + step) (length xs) step"
      using 1(2) by (simp add: py_range.simps [of i "length xs" step])
    have "concat (map (\<lambda>j. take step (drop j xs)) (py_range (i + step) (length xs) step))
            = drop (i + step) xs"
      using 1 False by simp
    moreover have "drop (i + step) xs = drop step (drop i xs)"
      by (simp add: add.commute)
    ultimately have "concat (map (\<lambda>j. take step (drop j xs)) (py_range i (length xs) step))
        = take step (drop i xs) @ drop step (drop i xs)"
      using eq by (simp only: list.map concat.simps)
    then show ?thesis by (simp only: append_take_drop_id)
  qed
qed

subsection \<open>One pass and the whole loop of the feeder\<close>

lemma stays_open_step:
  "stays_open c (Suc n) \<Longrightarrow> \<exists>c'. ws_send c = Inr c' \<and> stays_open c' n"
  by (cases c) (auto simp: stays_open_def ws_send_def split: nat.splits)

lemma send_chunk_closed:
  "ws_send (conn st) = Inl e \<Longrightarrow>
   send_chunk audio tc i st =
     Break (st\<lparr>trace := trace st @ [Print (ConnectionClosedAfter (chunks_sent st))]\<rparr>)"
  by (simp add: send_chunk_def)

lemma send_chunk_zero:
  "ws_send (conn st) = Inr c \<Longrightarrow>
   send_chunk audio 0 i st =
     Raise ZeroDivisionError
       (st\<lparr>conn := c, chunks_sent := chunks_sent st + 1,
           trace := trace st @ [WsSend (Frame (frame_at audio i))]\<rparr>)"
  by (simp add: send_chunk_def frame_at_def)

lemma send_chunk_open:
  assumes "ws_send (conn st) = Inr c" and "0 < tc"
  shows "\<exists>st' acts. send_chunk audio tc i st = Continue st' \<and> conn st' = c \<and>
           chunks_sent st' = Suc (chunks_sent st) \<and> trace st' = trace st @ acts \<and>
           frames_of acts = [frame_at audio i] \<and>
           payloads_of acts = [Frame (frame_at audio i)] \<and>
           SetReceiveDone \<notin> set acts \<and>
           prints_of acts =
             (if Suc (chunks_sent st) mod (tc div 10 + 1) = 0
              then [SentProgress (Suc (chunks_sent st) * 100 div tc)] else [])"
  using assms
  by (simp add: send_chunk_def frame_at_def Let_def frames_of_def payloads_of_def prints_of_def)

lemma sender_loop_open:
  "stays_open (conn st) (length offs) \<Longrightarrow> 0 < tc \<or> length offs \<le> 1 \<Longrightarrow>
   frames_of (trace (flow_state (sender_loop audio tc offs st)))
     = frames_of (trace st) @ map (frame_at audio) offs"
proof (induction offs arbitrary: st)
  case Nil
  then show ?case by (simp add: flow_state_def)
next
  case (Cons i offs)
  from Cons.prems(1) obtain c where c: "ws_send (conn st) = Inr c" "stays_open c (length offs)"
    using stays_open_step [of "conn st" "length offs"] by auto
  show ?case
  proof (cases "0 < tc")
    case True
    from send_chunk_open [OF c(1) True, of audio i] obtain st' acts where
      s: "send_chunk audio tc i st = Continue st'" "conn st' = c"
         "trace st' = trace st @ acts" "frames_of acts = [frame_at audio i]"
      by blast
    have "frames_of (trace (flow_state (sender_loop audio tc offs st')))
            = frames_of (trace st') @ map (frame_at audio) offs"
      using Cons.IH [of st'] s(2) c(2) True by simp
    then show ?thesis using s by (simp add: frames_of_append)
  next
    case False
    then have "offs = []" and t0: "tc = 0" using Cons.prems(2) by simp_all
    then show ?thesis using send_chunk_zero [OF c(1), of audio i]
      by (simp add: flow_state_def frames_of_append frames_of_simps)
  qed
qed

lemma sender_loop_payloads:
  "\<exists>fs. payloads_of (trace (flow_state (sender_loop audio tc offs st)))
          = payloads_of (trace st) @ map Frame fs"
proof (induction offs arbitrary: st)
  case Nil
  have "payloads_of (trace st) = payloads_of (trace st) @ map Frame []" by simp
  then show ?case by (simp only: sender_loop.simps flow_state_def flow.case) blast
next
  case (Cons i offs)
  show ?case
  proof (cases "ws_send (conn st)")
    case (Inl e)
    have "payloads_of (trace st) = payloads_of (trace st) @ map Frame []" by simp
    then show ?thesis using send_chunk_closed [OF Inl, of audio tc i]
      by (simp add: flow_state_def payloads_of_append payloads_of_simps)
  next
    case (Inr c)
    show ?thesis
    proof (cases "0 < tc")
      case True
      from send_chunk_open [OF Inr True, of audio i] obtain st' acts where
        s: "send_chunk audio tc i st = Continue st'"
           "trace st' = trace st @ acts" "payloads_of acts = [Frame (frame_at audio i)]"
        by blast
      from Cons.IH [of st'] obtain fs where
        "payloads_of (trace (flow_state (sender_loop audio tc offs st')))
           = payloads_of (trace st') @ map Frame fs" by blast
      then have "payloads_of (trace (flow_state (sender_loop audio tc (i # offs) st)))
           = payloads_of (trace st) @ map Frame (frame_at audio i # fs)"
        using s by (simp add: payloads_of_append)
      then show ?thesis by blast
    next
      case False
      then have "payloads_of (trace (flow_state (sender_loop audio tc (i # offs) st)))
           = payloads_of (trace st) @ map Frame [frame_at audio i]"
        using send_chunk_zero [OF Inr, of audio i]
        by (simp add: flow_state_def payloads_of_append payloads_of_simps)
      then show ?thesis by blast
    qed
  qed
qed

lemma lengths_py_range:
  "0 < step \<Longrightarrow>
   map (\<lambda>j. length (take step (drop j xs))) (py_range i (length xs) step)
     = replicate ((length xs - i) div step) step @
       (if (length xs - i) mod step = 0 then [] else [(length xs - i) mod step])"
proof (induction i "length xs" step rule: py_range.induct)
  case (1 i step)
  let ?d = "length xs - i"
  show ?case
  proof (cases "length xs \<le> i")
    case True
    then show ?thesis by (simp add: py_range.simps [of i "length xs" step])
  next
    case False
    then have eq: "py_range i (length xs) step = i # py_range (i + step) (length xs) step"
      using 1(2) by (simp add: py_range.simps [of i "length xs" step])
    show ?thesis
    proof (cases "step \<le> ?d")
      case True
      have ih: "map (\<lambda>j. length (take step (drop j xs))) (py_range (i + step) (length xs) step)
          = replicate ((length xs - (i + step)) div step) step @
            (if (length xs - (i + step)) mod step = 0 then []
             else [(length xs - (i + step)) mod step])"
        using 1 False by simp
      have sub: "length xs - (i + step) = ?d - step" by simp
      have d1: "?d div step = Suc ((?d - step) div step)"
        using True 1(2) by (simp add: le_div_geq)
      have d2: "?d mod step = (?d - step) mod step"
        using True by (simp add: le_mod_geq)
      have hd: "length (take step (drop i xs)) = step" using True by simp
      show ?thesis
        unfolding eq list.map hd ih sub d1 d2 by simp
    next
      case False
      then have nil: "py_range (i + step) (length xs) step = []"
        by (simp add: py_range.simps [of "i + step" "length xs" step])
      have "0 < ?d" using \<open>\<not> length xs \<le> i\<close> by simp
      then have "?d div step = 0" "?d mod step = ?d" "?d \<noteq> 0"
        "length (take step (drop i xs)) = ?d"
        using False by simp_all
      then show ?thesis unfolding eq nil by simp
    qed
  qed
qed

lemma sender_frames:
  "frames_of (trace (snd (sender audio tc st)))
     = frames_of (trace (flow_state
         (sender_loop audio tc (py_range 0 (length audio) chunk_samples) st)))"
  by (cases "sender_loop audio tc (py_range 0 (length audio) chunk_samples) st")
     (simp_all add: sender_def flow_state_def finish_sending_def frames_of_append frames_of_simps)

lemma chunk_samples_pos: "0 < chunk_samples"
  by (simp add: chunk_samples_eq)

subsection \<open>Well-shaped segments and the whole feeder\<close>



lemma sender_payloads:
  "\<exists>fs. payloads_of (trace (snd (sender audio tc st))) = payloads_of (trace st) @ map Frame fs"
proof -
  let ?l = "sender_loop audio tc (py_range 0 (length audio) chunk_samples) st"
  obtain fs where fs: "payloads_of (trace (flow_state ?l)) = payloads_of (trace st) @ map Frame fs"
    using sender_loop_payloads by blast
  have "payloads_of (trace (snd (sender audio tc st))) = payloads_of (trace (flow_state ?l))"
    by (cases ?l)
       (simp_all add: sender_def flow_state_def finish_sending_def payloads_of_append
          payloads_of_simps)
  then show ?thesis using fs by auto
qed

subsection \<open>Stripping, the deduplication loop and the collector\<close>



lemma shaped_fields:
  assumes "segment_shaped ops seg"
  obtains t a b where "seg_text seg = Inr t" "seg_time ops seg ''start'' = Inr a"
    "seg_time ops seg ''end'' = Inr b" "norm_text seg = t"
    "segment_line ops seg = transcript_line ops a b t"
  using assms
  by (auto simp: segment_shaped_def is_ok_def norm_text_def segment_line_def split: sum.splits)

lemma dedup_loop_first_seen:
  "\<forall>seg \<in> set segs. segment_shaped ops seg \<Longrightarrow>
   dedup_loop ops (norm_text ` set earlier) acc segs =
     Inr (acc @ map (segment_line ops)
            (first_seen earlier (filter (\<lambda>s. norm_text s \<noteq> []) segs)))"
proof (induction segs arbitrary: earlier acc)
  case Nil
  then show ?case by simp
next
  case (Cons seg segs)
  then have sh: "segment_shaped ops seg" and rest: "\<forall>s \<in> set segs. segment_shaped ops s"
    by simp_all
  from sh obtain t a b where
    f: "seg_text seg = Inr t" "seg_time ops seg ''start'' = Inr a"
       "seg_time ops seg ''end'' = Inr b" "norm_text seg = t"
       "segment_line ops seg = transcript_line ops a b t"
    by (rule shaped_fields)
  note ih = Cons.IH [OF rest]
  show ?case
  proof (cases "t = []")
    case True
    then show ?thesis using f ih [of earlier acc] by simp
  next
    case False
    show ?thesis
    proof (cases "t \<in> norm_text ` set earlier")
      case True
      then have "norm_text ` set (earlier @ [seg]) = norm_text ` set earlier"
        using f(4) by auto
      then show ?thesis using f False True ih [of "earlier @ [seg]" acc] by simp
    next
      case nin: False
      have "norm_text ` set (earlier @ [seg]) = insert t (norm_text ` set earlier)"
        using f(4) by auto
      then show ?thesis
        using f False nin ih [of "earlier @ [seg]" "acc @ [transcript_line ops a b t]"]
        by simp
    qed
  qed
qed


lemma dedup_loop_length:
  "dedup_loop ops seen acc segs = Inr ls \<Longrightarrow> length acc \<le> length ls"
proof (induction segs arbitrary: seen acc)
  case Nil
  then show ?case by simp
next
  case (Cons seg segs)
  then show ?case
    by (fastforce split: sum.splits if_splits dest: Cons.IH)
qed



lemmas seg_eval =
  segment_shaped_def is_ok_def seg_text_def seg_time_def py_get_def py_strip_def py_float_def
  plain_ops_def strip_def is_space_def norm_text_def segment_line_def transcript_line_def
  str_int_def str_nat.simps

subsection \<open>The cadence of the progress lines, for a positive total\<close>

lemma set_prints_of: "(l \<in> set (prints_of tr)) = (Print l \<in> set tr)"
  by (induction tr) (auto simp: prints_of_def split: action.splits)

lemma progress_line_cadence:
  assumes "ws_send (conn st) = Inr c" and "0 < tc"
  shows "\<exists>st' acts. send_chunk audio tc i st = Continue st' \<and> trace st' = trace st @ acts \<and>
           chunks_sent st' = Suc (chunks_sent st) \<and>
           ((\<exists>p. Print (SentProgress p) \<in> set acts) =
            (chunks_sent st' mod (tc div 10 + 1) = 0))"
proof -
  from send_chunk_open [OF assms, of audio i] obtain st' acts where
    s: "send_chunk audio tc i st = Continue st'" "trace st' = trace st @ acts"
       "chunks_sent st' = Suc (chunks_sent st)"
       "prints_of acts =
          (if Suc (chunks_sent st) mod (tc div 10 + 1) = 0
           then [SentProgress (Suc (chunks_sent st) * 100 div tc)] else [])"
    by blast
  have "(\<exists>p. Print (SentProgress p) \<in> set acts) = (\<exists>p. SentProgress p \<in> set (prints_of acts))"
    by (simp add: set_prints_of)
  also have "\<dots> = (chunks_sent st' mod (tc div 10 + 1) = 0)"
    using s(3,4) by simp
  finally have e: "(\<exists>p. Print (SentProgress p) \<in> set acts) =
      (chunks_sent st' mod (tc div 10 + 1) = 0)" .
  show ?thesis using s(1-3) e by (intro exI [of _ st'] exI [of _ acts] conjI)
qed

lemma progress_line_cadence_25:
  assumes "ws_send (conn st) = Inr c"
  shows "\<exists>st' acts. send_chunk audio 25 i st = Continue st' \<and> trace st' = trace st @ acts \<and>
           ((\<exists>p. Print (SentProgress p) \<in> set acts) = (3 dvd Suc (chunks_sent st)))"
proof -
  have "0 < (25::nat)" by simp
  from progress_line_cadence [OF assms this, of audio i] show ?thesis
  proof (elim exE conjE)
    fix st' acts
    assume s: "send_chunk audio 25 i st = Continue st'" "trace st' = trace st @ acts"
       "chunks_sent st' = Suc (chunks_sent st)"
       "(\<exists>p. Print (SentProgress p) \<in> set acts) = (chunks_sent st' mod (25 div 10 + 1) = 0)"
    have "(chunks_sent st' mod (25 div 10 + 1) = 0) = (3 dvd Suc (chunks_sent st))"
      using s(3) by (simp add: dvd_eq_mod_eq_0)
    then have e: "(\<exists>p. Print (SentProgress p) \<in> set acts) = (3 dvd Suc (chunks_sent st))"
      using s(4) by (simp only:)
    show ?thesis using s(1,2) e by (intro exI [of _ st'] exI [of _ acts] conjI)
  qed
qed

subsection \<open>The first-seen selection\<close>

text \<open>
  What \<open>first_seen\<close> selects: a record is kept exactly when no record before it has its
  normalized text; the kept records are in their original order, their texts are
  distinct, and every text that is new is represented.
\<close>

lemma first_seen_texts:
  "norm_text ` set (first_seen earlier segs) = norm_text ` set segs - norm_text ` set earlier"
proof (induction segs arbitrary: earlier)
  case Nil
  then show ?case by simp
next
  case (Cons seg segs)
  show ?case using Cons.IH [of "earlier @ [seg]"] by auto
qed

lemma first_seen_distinct: "distinct (map norm_text (first_seen earlier segs))"
proof (induction segs arbitrary: earlier)
  case Nil
  then show ?case by simp
next
  case (Cons seg segs)
  have "norm_text seg \<notin> norm_text ` set (first_seen (earlier @ [seg]) segs)"
    by (simp add: first_seen_texts)
  then show ?case using Cons.IH [of "earlier @ [seg]"] by simp
qed

lemma first_seen_subseq: "subseq (first_seen earlier segs) segs"
  by (induction segs arbitrary: earlier) auto

lemma first_seen_first:
  "first_seen earlier (pre @ seg # post) =
     first_seen earlier pre @
     (if norm_text seg \<in> norm_text ` (set earlier \<union> set pre) then [] else [seg]) @
     first_seen (earlier @ pre @ [seg]) post"
proof (induction pre arbitrary: earlier)
  case Nil
  then show ?case by simp
next
  case (Cons p pre)
  show ?case using Cons.IH [of "earlier @ [p]"] by (simp add: image_Un)
qed

subsection \<open>The report of a run that collected nothing, for an input with frames\<close>

lemma report_without_segments:
  assumes "run_transcription w wv n = Inr s" and "collected s = []"
    and "0 < nframes wv" and "fs_writable w"
  shows "main ops w wv audio_file n =
           \<lparr>raised = None,
            report_file = Some (results_path n (timestamp w),
              report_head ops n audio_file (duration s) (total_time s) @
              [''Real-time factor: '' @ fmt_real ops 2 (total_time s / duration s) @ ''x'' @ nl,
               ''Unique segments: 0'' @ nl, rule70 @ nl @ nl, []])\<rparr>"
proof -
  have fr: "0 < framerate wv"
    using assms(1) by (auto simp: run_transcription_def Let_def split: if_splits)
  have "duration s = real (nframes wv) / real (framerate wv)"
    using assms(1) fr
    by (auto simp: run_transcription_def Let_def split: if_splits sum.splits)
  then have "duration s \<noteq> 0" using assms(3) fr by simp
  then show ?thesis
    using assms
    by (simp add: main_def compile_transcript_def report_rest_def str_nat.simps)
qed

subsection \<open>A closing connection, batches with a malformed segment, lines of a body\<close>












subsection \<open>Frame slicing\<close>

text \<open>
  C1 (as stated): a buffer of \<open>L\<close> samples goes out as exactly \<open>L div 1600\<close> full
  frames and a trailing remainder is never transmitted. On a buffer of 1601 samples over an
  open connection, where \<open>L div 1600 = 1\<close>, the feeder sends two frames; the second
  is the remainder, one sample.
\<close>

theorem C1_remainder_is_sent:
  "frames_of (trace (snd (sender (replicate 1601 (0::real))
       (length (replicate 1601 (0::real)) div chunk_samples)
       \<lparr>chunks_sent = 0, conn = None, trace = []\<rparr>)))
   = [replicate 1600 0, [0]] \<and>
   length (replicate 1601 (0::real)) div chunk_samples = 1"
  by (simp add: sender_def py_range.simps chunk_samples_eq send_chunk_def ws_send_def
      finish_sending_def frames_of_def)

text \<open>
  C1 (amended): over a connection that stays open, the frames the feeder transmits are
  consecutive slices that together are the whole buffer: \<open>L div 1600\<close> full frames of
  1600 samples, followed, when \<open>L\<close> is not a multiple of 1600, by one last frame with
  the remaining \<open>L mod 1600\<close> samples.
\<close>

theorem C1_frames_cover_buffer:
  assumes "stays_open (conn st) ((length audio + chunk_samples - 1) div chunk_samples)"
  shows "\<exists>fs. frames_of (trace (snd (sender audio (length audio div chunk_samples) st)))
              = frames_of (trace st) @ fs \<and>
            concat fs = audio \<and>
            map length fs =
              replicate (length audio div chunk_samples) chunk_samples @
              (if length audio mod chunk_samples = 0 then []
               else [length audio mod chunk_samples])"
proof -
  let ?offs = "py_range 0 (length audio) chunk_samples"
  let ?fs = "map (frame_at audio) ?offs"
  have len: "length ?offs = (length audio + chunk_samples - 1) div chunk_samples"
    using length_py_range [OF chunk_samples_pos, of 0 "length audio"] by simp
  have small: "0 < length audio div chunk_samples \<or> length ?offs \<le> 1"
  proof (cases "0 < length audio div chunk_samples")
    case False
    then have "length audio < chunk_samples" using chunk_samples_pos by (simp add: div_eq_0_iff)
    then have "length audio + chunk_samples - 1 < 2 * chunk_samples" by simp
    then have "(length audio + chunk_samples - 1) div chunk_samples < 2"
      using chunk_samples_pos by (simp add: less_mult_imp_div_less)
    then show ?thesis using len by simp
  qed simp
  have "frames_of (trace (flow_state (sender_loop audio (length audio div chunk_samples) ?offs st)))
          = frames_of (trace st) @ ?fs"
    using sender_loop_open [of st ?offs "length audio div chunk_samples" audio] assms len small
    by simp
  then have a: "frames_of (trace (snd (sender audio (length audio div chunk_samples) st)))
          = frames_of (trace st) @ ?fs"
    by (simp only: sender_frames)
  have b: "concat ?fs = audio"
    using concat_frames_py_range [OF chunk_samples_pos, of audio 0]
    by (simp add: frame_at_def [abs_def])
  have c: "map length ?fs =
              replicate (length audio div chunk_samples) chunk_samples @
              (if length audio mod chunk_samples = 0 then []
               else [length audio mod chunk_samples])"
    using lengths_py_range [OF chunk_samples_pos, of audio 0]
    by (simp add: frame_at_def [abs_def] comp_def)
  show ?thesis using a b c by blast
qed

text \<open>The amended C1 at a buffer of 1601 samples.\<close>

theorem C1_frames_cover_buffer_witness:
  "stays_open (conn \<lparr>chunks_sent = 0, conn = None, trace = ([] :: real action list)\<rparr>)
     ((length (replicate 1601 (0::real)) + chunk_samples - 1) div chunk_samples) \<and>
   (\<exists>fs. frames_of (trace (snd (sender (replicate 1601 (0::real))
             (length (replicate 1601 (0::real)) div chunk_samples)
             \<lparr>chunks_sent = 0, conn = None, trace = []\<rparr>))) = fs \<and>
          concat fs = replicate 1601 0 \<and> map length fs = [1600, 1])"
  using C1_frames_cover_buffer [of "\<lparr>chunks_sent = 0, conn = None, trace = []\<rparr>"
      "replicate 1601 (0::real)"]
  by (simp add: stays_open_def chunk_samples_eq frames_of_simps)

subsection \<open>Deduplication of the transcript\<close>

text \<open>
  C2 (as stated): the transcript holds the first-seen record of each distinct normalized
  text, in order, that is, the lines of \<open>first_seen [] rs\<close>. A single segment whose
  text is one space has the empty string as its normalized text, a distinct value seen
  first, and yet no line is written for it.
\<close>

theorem C2_blank_text_not_retained:
  "compile_transcript plain_ops
      [JObj [(''text'', JStr '' ''), (''start'', JFloat 1), (''end'', JFloat 2)]]
   \<noteq> Inr (map (segment_line plain_ops)
        (first_seen [] [JObj [(''text'', JStr '' ''), (''start'', JFloat 1), (''end'', JFloat 2)]]))"
  by (simp add: compile_transcript_def seg_text_def py_get_def py_strip_def strip_def
      is_space_def)

text \<open>
  C2 (amended): for every sequence of collected segment records, the transcript holds, in
  receipt order, the line of the first-seen record of each distinct non-empty normalized
  text; a later record whose normalized text matches an earlier one is dropped whatever
  its start and end times, and a record whose normalized text is empty is dropped.
\<close>

theorem C2_first_seen_nonempty:
  assumes "\<forall>seg \<in> set rs. segment_shaped ops seg"
  shows "compile_transcript ops rs =
           Inr (map (segment_line ops) (first_seen [] (filter (\<lambda>s. norm_text s \<noteq> []) rs)))"
  using dedup_loop_first_seen [OF assms, of "[]" "[]"] by (simp add: compile_transcript_def)

text \<open>
  The amended C2 at four segments: a text, a blank, the same text with other times and
  surrounding spaces, and another text.
\<close>

theorem C2_first_seen_nonempty_witness:
  "segment_shaped plain_ops (JObj [(''text'', JStr ''hello''), (''start'', JFloat 0), (''end'', JFloat 1)]) \<and>
   segment_shaped plain_ops (JObj [(''text'', JStr '' '')]) \<and>
   segment_shaped plain_ops (JObj [(''text'', JStr '' hello ''), (''start'', JFloat 5), (''end'', JFloat 6)]) \<and>
   segment_shaped plain_ops (JObj [(''text'', JStr ''bye''), (''start'', JInt 7)]) \<and>
   compile_transcript plain_ops
     [JObj [(''text'', JStr ''hello''), (''start'', JFloat 0), (''end'', JFloat 1)],
      JObj [(''text'', JStr '' '')],
      JObj [(''text'', JStr '' hello ''), (''start'', JFloat 5), (''end'', JFloat 6)],
      JObj [(''text'', JStr ''bye''), (''start'', JInt 7)]]
   = Inr [''[0s - 1s] hello'', ''[7s - 0s] bye'']"
  using C2_first_seen_nonempty [of
     "[JObj [(''text'', JStr ''hello''), (''start'', JFloat 0), (''end'', JFloat 1)],
       JObj [(''text'', JStr '' '')],
       JObj [(''text'', JStr '' hello ''), (''start'', JFloat 5), (''end'', JFloat 6)],
       JObj [(''text'', JStr ''bye''), (''start'', JInt 7)]]" plain_ops]
  by (simp add: seg_eval)

subsection \<open>Progress lines\<close>

text \<open>
  C3 at a buffer shorter than one frame: the total frame count is 0, the one (short) frame
  is sent, the sent count 1 satisfies \<open>1 mod (0 div 10 + 1) = 0\<close>, and no progress line
  is printed: the percentage \<open>1 * 100 div 0\<close> is computed first and raises, which ends
  the feeder before its closing lines. For a positive total the lines do follow the stated
  modulus (\<open>progress_line_cadence\<close>), at the multiples of 3 for a total of 25
  (\<open>progress_line_cadence_25\<close>).
\<close>

theorem C3_no_progress_line_at_zero_total:
  "sender [0::real] (length [0::real] div chunk_samples)
      \<lparr>chunks_sent = 0, conn = None, trace = []\<rparr>
   = (Some ZeroDivisionError,
      \<lparr>chunks_sent = 1, conn = None, trace = [WsSend (Frame [0])]\<rparr>)
   \<and> (1::nat) mod (length [0::real] div chunk_samples div 10 + 1) = 0"
  by (simp add: sender_def py_range.simps chunk_samples_def SAMPLE_RATE_def
      CHUNK_DURATION_MS_def send_chunk_def ws_send_def)

subsection \<open>The report of a run without segments\<close>

text \<open>
  C4 at an audio file without frames: the connection is made, nothing is sent after the
  handshake, no segment arrives, and \<^verbatim>\<open>main\<close> raises on the real-time factor
  \<open>total_time / 0\<close> after five header lines; the line with the number of unique
  segments and the body are never written. For an input with at least one frame and a
  writable report directory the report is written, with "Unique segments: 0" and an empty
  body (\<open>report_without_segments\<close>).
\<close>

theorem C4_empty_audio_raises:
  "main plain_ops
     \<lparr>connect_ok = True, send_budget = None, inbound = [], elapsed = 10,
      fs_writable = True, timestamp = ''20240101-000000''\<rparr>
     \<lparr>framerate = 16000, nframes = 0, pcm = []\<rparr> ''/tmp/audio2.wav'' 1
   = \<lparr>raised = Some ZeroDivisionError,
      report_file = Some (results_path 1 ''20240101-000000'',
         report_head plain_ops 1 ''/tmp/audio2.wav'' 0 10)\<rparr>"
  by (simp add: main_def run_transcription_def ws_send_def sender_def py_range.simps
      chunk_samples_def SAMPLE_RATE_def CHUNK_DURATION_MS_def receiver_def
      compile_transcript_def finish_sending_def)

subsection \<open>A connection that closes while the feeder is sending\<close>




subsection \<open>The collector and undecodable messages\<close>

text \<open>
  C6 (as stated): a malformed inbound message is skipped and the receive loop goes on to
  the next message. If that were so, a run that receives an undecodable message before a
  segment batch would collect what the run without the undecodable message collects. It
  does not: the batch is never read.
\<close>

theorem C6_malformed_not_skipped:
  "results (snd (receiver
      [RecvMsg Garbled,
       RecvMsg (Encoded (JObj [(''segments'', JArr [JObj [(''text'', JStr ''hi'')]])]))]))
   \<noteq> results (snd (receiver
      [RecvMsg (Encoded (JObj [(''segments'',
          JArr [JObj [(''text'', JStr ''hi'') :: (string \<times> real json)]])]))]))"
  by (simp add: receiver_def json_loads_def handle_message_def py_in_def py_getitem_def
      py_iter_def seg_text_def py_get_def py_strip_def strip_def is_space_def)

text \<open>
  C6 (amended): on an inbound message that cannot be decoded the collector logs a receiver
  error and leaves its receive loop at once, with the results collected so far unchanged;
  no later message is read.
\<close>

theorem C6_malformed_ends_loop:
  "receiver_loop st (RecvMsg Garbled # evs) =
     (Crashed JSONDecodeError, st\<lparr>console := console st @ [ReceiverError JSONDecodeError]\<rparr>)"
  by (simp add: json_loads_def)

subsection \<open>The shapes of inbound messages\<close>




subsection \<open>The handshake and the frames\<close>

text \<open>
  C8 (as stated): in every session the configuration handshake is sent exactly once. In a
  session whose connection cannot be established the exception is caught, the session ends
  with nothing collected, and nothing was sent: the handshake went out zero times.
\<close>

theorem C8_no_handshake_without_connection:
  "run_transcription
      \<lparr>connect_ok = False, send_budget = None, inbound = ([] :: real recv list),
       elapsed = 10, fs_writable = True, timestamp = ''20240101-000000''\<rparr>
      \<lparr>framerate = 16000, nframes = 1600, pcm = replicate 1600 0\<rparr> 1
   = Inr \<lparr>collected = [], total_time = 10, duration = 1 / 10, outbound = [],
          caught = Some ConnectFailed, receiver_console = []\<rparr>"
  by (simp add: run_transcription_def)

text \<open>
  C8 (amended): in every session whose connection is established and still open at the
  handshake, the payloads sent are the configuration, once and first, followed by audio
  frames only; in every other session nothing is sent. So no session sends a frame before
  the configuration or the configuration a second time.
\<close>

theorem C8_handshake_first:
  assumes "run_transcription w wv n = Inr s"
  shows "\<exists>fs. payloads_of (outbound s) =
           (if connect_ok w \<and> send_budget w \<noteq> Some 0
            then Config (handshake n) # map Frame fs else [])"
proof (cases "connect_ok w \<and> send_budget w \<noteq> Some 0")
  case False
  then have "outbound s = []"
    using assms
    by (auto simp: run_transcription_def Let_def ws_send_def
        split: if_splits option.splits nat.splits)
  then show ?thesis using False by (simp add: payloads_of_simps)
next
  case True
  then have "\<exists>c. ws_send (send_budget w) = Inr c"
    by (auto simp: ws_send_def split: option.splits nat.splits)
  then obtain c where c: "ws_send (send_budget w) = Inr c" by blast
  let ?audio = "map (\<lambda>s. real_of_int (sint s) / 32768) (take (nframes wv) (pcm wv))"
  let ?st = "\<lparr>chunks_sent = 0, conn = c,
              trace = [WsSend (Config (handshake n)) :: real action]\<rparr>"
  have "outbound s = trace (snd (sender ?audio (length ?audio div chunk_samples) ?st))"
    using assms True c by (auto simp: run_transcription_def Let_def split: if_splits)
  moreover obtain fs where
    "payloads_of (trace (snd (sender ?audio (length ?audio div chunk_samples) ?st)))
       = payloads_of (trace ?st) @ map Frame fs"
    using sender_payloads by blast
  ultimately have "payloads_of (outbound s) = Config (handshake n) # map Frame fs"
    by (simp add: payloads_of_simps)
  then show ?thesis using True by auto
qed

text \<open>The amended C8 at a session over an open connection with a buffer of one frame.\<close>

theorem C8_handshake_first_witness:
  "run_transcription
      \<lparr>connect_ok = True, send_budget = None, inbound = ([] :: real recv list),
       elapsed = 10, fs_writable = True, timestamp = ''20240101-000000''\<rparr>
      \<lparr>framerate = 16000, nframes = 1600, pcm = replicate 1600 0\<rparr> 1
   = Inr \<lparr>collected = [], total_time = 10, duration = 1 / 10,
          outbound = [WsSend (Config (handshake 1)), WsSend (Frame (replicate 1600 0)),
                      Print (SentProgress 100), Sleep (1 / 20),
                      Print (FinishedSending 1), Sleep 10, SetReceiveDone],
          caught = None, receiver_console = []\<rparr> \<and>
   (\<exists>fs. payloads_of [WsSend (Config (handshake 1)), WsSend (Frame (replicate 1600 (0::real))),
                      Print (SentProgress 100), Sleep (1 / 20),
                      Print (FinishedSending 1), Sleep 10, SetReceiveDone]
           = Config (handshake 1) # map Frame fs)"
proof -
  let ?w = "\<lparr>connect_ok = True, send_budget = None, inbound = ([] :: real recv list),
       elapsed = 10, fs_writable = True, timestamp = ''20240101-000000''\<rparr>"
  let ?wv = "\<lparr>framerate = 16000, nframes = 1600, pcm = replicate 1600 0\<rparr>"
  have run: "run_transcription ?w ?wv 1
     = Inr \<lparr>collected = [], total_time = 10, duration = 1 / 10,
          outbound = [WsSend (Config (handshake 1)), WsSend (Frame (replicate 1600 0)),
                      Print (SentProgress 100), Sleep (1 / 20),
                      Print (FinishedSending 1), Sleep 10, SetReceiveDone],
          caught = None, receiver_console = []\<rparr>"
    by (simp add: run_transcription_def ws_send_def sender_def py_range.simps chunk_samples_eq
        send_chunk_def receiver_def finish_sending_def CHUNK_DURATION_MS_def)
  from C8_handshake_first [OF run] show ?thesis using run by simp
qed
subsection \<open>The header count and the body of the report\<close>




subsection \<open>Segments with blank text\<close>



end
